theory Spec2Isabelle
  imports Main "HOL-Library.Word"
begin

unbundle bit_operations_syntax

chapter \<open>The cascade stream and the tile base of the ACAP model\<close>

text \<open>
  A shallow embedding of \<open>acap/me/cascade_stream.hpp\<close> and \<open>acap/aie/tile_base.hpp\<close>,
  with the guards of the test program \<open>tests/acap/cascade_stream.cpp\<close>. The two
  accessors of the cascade stream subscript a built-in array of pipes; the model keeps
  the subscript expressions as they are written, returns an accessor as the slot it
  refers to, and makes a subscript outside the array a fault. The template parameter
  \<open>T\<close> of the two accessors is not used by their bodies and has no counterpart here.
\<close>

section \<open>Geography\<close>

text \<open>
  The cascade stream is a template over a \<open>Geography\<close> type and reads three of its
  compile-time constants: \<open>geo::x_size\<close>, \<open>geo::y_size\<close> and \<open>geo::x_max\<close>; the test
  program also reads \<open>geo::x_min\<close>, \<open>geo::y_min\<close> and \<open>geo::y_max\<close>. The header
  \<open>geography.hpp\<close> that declares them is not among the sources, so the two sizes are
  parameters of the model (C++ \<open>int\<close> constants, hence \<open>int\<close> fields) and the four
  bounds follow the specification.
\<close>
record geography =
  x_size :: int
  y_size :: int

text \<open>Modelled from the spec: \<open>geo::x_max\<close>, declared in the absent \<open>geography.hpp\<close>;
  the specification gives "geometry with \<open>x_size\<close> columns and \<open>x_max = x_size - 1\<close>".\<close>
definition x_max :: "geography \<Rightarrow> int" where
  "x_max g = x_size g - 1"

text \<open>Modelled from the spec: \<open>geo::y_max\<close>, declared in the absent \<open>geography.hpp\<close>;
  the last row of a grid of \<open>y_size\<close> rows whose first row is row 0.\<close>
definition y_max :: "geography \<Rightarrow> int" where
  "y_max g = y_size g - 1"

text \<open>Modelled from the spec: \<open>geo::x_min\<close>, declared in the absent \<open>geography.hpp\<close>;
  the chain starts at tile \<open>(0, 0)\<close>.\<close>
definition x_min :: "geography \<Rightarrow> int" where
  "x_min g = 0"

text \<open>Modelled from the spec: \<open>geo::y_min\<close>, declared in the absent \<open>geography.hpp\<close>;
  the chain starts at tile \<open>(0, 0)\<close>.\<close>
definition y_min :: "geography \<Rightarrow> int" where
  "y_min g = 0"

text \<open>A grid has at least one column and one row.\<close>
definition wf_geography :: "geography \<Rightarrow> bool" where
  "wf_geography g \<longleftrightarrow> 0 < x_size g \<and> 0 < y_size g"

text \<open>The coordinates of the tiles of the grid.\<close>
definition valid_tile :: "geography \<Rightarrow> int \<Rightarrow> int \<Rightarrow> bool" where
  "valid_tile g x y \<longleftrightarrow> 0 \<le> x \<and> x \<le> x_max g \<and> 0 \<le> y \<and> y < y_size g"

text \<open>The 3 by 2 array of the specification's example and of the pipeliner test
  (\<open>layout::size<3, 2>\<close>).\<close>
definition size_3_2 :: geography where
  "size_3_2 = \<lparr>x_size = 3, y_size = 2\<rparr>"

section \<open>Pipes and accessors\<close>

text \<open>
  \<open>cl::sycl::access::mode\<close> and \<open>cl::sycl::access::target\<close>, restricted to the
  enumerators the two headers name.
\<close>
datatype access_mode = mode_read | mode_write

datatype access_target = blocking_pipe | pipe

text \<open>
  Modelled from the spec: \<open>cl::sycl::static_pipe<T, N>\<close>, whose header is not among the
  sources: a bounded, ordered queue of typed elements, empty when constructed.
\<close>
record 'a static_pipe =
  capacity :: nat
  content :: "'a list"

definition new_pipe :: "nat \<Rightarrow> 'a static_pipe" where
  "new_pipe n = \<lparr>capacity = n, content = []\<rparr>"

text \<open>
  An accessor is a handle on one pipe of an array: the slot it refers to, with the
  access mode and the target (blocking or not) chosen by the caller.
\<close>
record accessor =
  acc_slot :: nat
  acc_mode :: access_mode
  acc_target :: access_target

text \<open>
  What a subscript outside its array does: on the built-in array of the cascade stream
  the behaviour is undefined; on the ports of the stream switch the specification
  demands an out-of-range failure.
\<close>
datatype fault = undefined_behaviour int | out_of_range int

text \<open>\<open>a[i].get_access<Mode, Target>()\<close> on a built-in array \<open>a\<close>.\<close>
definition get_access ::
    "'p list \<Rightarrow> int \<Rightarrow> access_mode \<Rightarrow> access_target \<Rightarrow> fault + accessor" where
  "get_access a i m t =
     (if 0 \<le> i \<and> i < int (length a)
      then Inr \<lparr>acc_slot = nat i, acc_mode = m, acc_target = t\<rparr>
      else Inl (undefined_behaviour i))"

section \<open>The cascade stream\<close>

text \<open>
  \<open>struct cascade_stream\<close> has one member, the array
  \<open>cl::sycl::static_pipe<int, 4> cascade_stream_pipes[geo::x_size*geo::y_size + 1]\<close>.
\<close>
record cascade_stream =
  cascade_stream_pipes :: "int static_pipe list"

text \<open>
  The extent of the array is part of the type \<open>cascade_stream<Geography>\<close>: whatever
  the pipes hold, there are \<open>geo::x_size*geo::y_size + 1\<close> of them.
\<close>
definition cascade_stream_for :: "geography \<Rightarrow> cascade_stream \<Rightarrow> bool" where
  "cascade_stream_for g cs \<longleftrightarrow>
     length (cascade_stream_pipes cs) = nat (x_size g * y_size g + 1)"

text \<open>The implicit constructor: every pipe of the array is default-constructed.\<close>
definition new_cascade_stream :: "geography \<Rightarrow> cascade_stream" where
  "new_cascade_stream g =
     \<lparr>cascade_stream_pipes = replicate (nat (x_size g * y_size g + 1)) (new_pipe 4)\<rparr>"

text \<open>The subscript of \<open>get_cascade_stream_in\<close>:
  \<open>geo::x_size*y + ((y & 1) ? geo::x_max - x : x)\<close>.\<close>
definition cascade_stream_in_index :: "geography \<Rightarrow> int \<Rightarrow> int \<Rightarrow> int" where
  "cascade_stream_in_index g x y =
     x_size g * y + (if y AND 1 \<noteq> 0 then x_max g - x else x)"

text \<open>The subscript of \<open>get_cascade_stream_out\<close>:
  \<open>geo::x_size*y + 1 + ((y & 1) ? geo::x_max - x : x)\<close>.\<close>
definition cascade_stream_out_index :: "geography \<Rightarrow> int \<Rightarrow> int \<Rightarrow> int" where
  "cascade_stream_out_index g x y =
     x_size g * y + 1 + (if y AND 1 \<noteq> 0 then x_max g - x else x)"

definition get_cascade_stream_in ::
    "geography \<Rightarrow> cascade_stream \<Rightarrow> access_target \<Rightarrow> int \<Rightarrow> int \<Rightarrow> fault + accessor" where
  "get_cascade_stream_in g cs t x y =
     get_access (cascade_stream_pipes cs) (cascade_stream_in_index g x y) mode_read t"

definition get_cascade_stream_out ::
    "geography \<Rightarrow> cascade_stream \<Rightarrow> access_target \<Rightarrow> int \<Rightarrow> int \<Rightarrow> fault + accessor" where
  "get_cascade_stream_out g cs t x y =
     get_access (cascade_stream_pipes cs) (cascade_stream_out_index g x y) mode_write t"

text \<open>
  The subscripts are computed on C++ \<open>int\<close>. The model computes them on the
  integers; the definitions below repeat the two expressions on 32-bit words, and the
  section on machine integers shows that for the tiles of a grid whose array extent is
  an \<open>int\<close> the two agree, no intermediate value leaving the range of \<open>int\<close>.
\<close>
definition int32 :: "int \<Rightarrow> bool" where
  "int32 v \<longleftrightarrow> - (2 ^ 31) \<le> v \<and> v < 2 ^ 31"

definition cascade_stream_in_index32 ::
    "32 word \<Rightarrow> 32 word \<Rightarrow> 32 word \<Rightarrow> 32 word \<Rightarrow> 32 word" where
  "cascade_stream_in_index32 xs xm x y = xs * y + (if y AND 1 \<noteq> 0 then xm - x else x)"

definition cascade_stream_out_index32 ::
    "32 word \<Rightarrow> 32 word \<Rightarrow> 32 word \<Rightarrow> 32 word \<Rightarrow> 32 word" where
  "cascade_stream_out_index32 xs xm x y =
     xs * y + 1 + (if y AND 1 \<noteq> 0 then xm - x else x)"

section \<open>The serpentine order\<close>

text \<open>
  The order in which the specification threads the chain through the array: row by
  row, with increasing \<open>x\<close> on even rows and decreasing \<open>x\<close> on odd rows. This
  definition follows the specification's words, not the code; the theorems below compare
  the code's subscripts with it.
\<close>
definition row_order :: "geography \<Rightarrow> int \<Rightarrow> (int \<times> int) list" where
  "row_order g y =
     (if odd y then rev (map (\<lambda>x. (x, y)) [0..x_max g])
      else map (\<lambda>x. (x, y)) [0..x_max g])"

definition serpentine_order :: "geography \<Rightarrow> (int \<times> int) list" where
  "serpentine_order g = concat (map (row_order g) [0..y_max g])"

text \<open>The two subscripts of a tile given as a pair of coordinates.\<close>
definition in_index_of :: "geography \<Rightarrow> int \<times> int \<Rightarrow> int" where
  "in_index_of g t = cascade_stream_in_index g (fst t) (snd t)"

definition out_index_of :: "geography \<Rightarrow> int \<times> int \<Rightarrow> int" where
  "out_index_of g t = cascade_stream_out_index g (fst t) (snd t)"

text \<open>The tile that follows \<open>t\<close> in a list without repetition, when there is one.\<close>
fun next_in :: "'a list \<Rightarrow> 'a \<Rightarrow> 'a option" where
  "next_in (a # b # xs) t = (if a = t then Some b else next_in (b # xs) t)"
| "next_in xs t = None"

definition successor :: "geography \<Rightarrow> int \<times> int \<Rightarrow> (int \<times> int) option" where
  "successor g t = next_in (serpentine_order g) t"

text \<open>
  The links of the chain as the specification describes them: to the horizontal
  neighbour inside a row, and from the end of a row to the tile of the same column in
  the next row.
\<close>
definition step :: "geography \<Rightarrow> int \<times> int \<Rightarrow> int \<times> int" where
  "step g t =
     (if even (snd t) then (if fst t < x_max g then (fst t + 1, snd t) else (fst t, snd t + 1))
      else (if 0 < fst t then (fst t - 1, snd t) else (fst t, snd t + 1)))"

section \<open>The start and the end of the chain\<close>

text \<open>
  The guards of \<open>tile::run\<close> in \<open>tests/acap/cascade_stream.cpp\<close>: a tile does not read
  its cascade input when \<open>t::x == geo::x_min && t::y == geo::y_min\<close>, and does not write
  its cascade output when
  \<open>t::x == ((t::y & 1) ? geo::x_min : geo::x_max) && t::y == geo::y_max\<close>.
\<close>
definition is_cascade_start :: "geography \<Rightarrow> int \<Rightarrow> int \<Rightarrow> bool" where
  "is_cascade_start g x y \<longleftrightarrow> x = x_min g \<and> y = y_min g"

definition is_cascade_end :: "geography \<Rightarrow> int \<Rightarrow> int \<Rightarrow> bool" where
  "is_cascade_end g x y \<longleftrightarrow>
     x = (if y AND 1 \<noteq> 0 then x_min g else x_max g) \<and> y = y_max g"

section \<open>Pipe operations\<close>

text \<open>
  Modelled from the spec: the operations of an access handle on a pipe, whose headers are
  not among the sources. The specification's channel contract has \<open>try_read\<close>,
  \<open>read_blocking\<close>, \<open>try_write\<close> and \<open>write_blocking\<close>: a read removes and returns
  the oldest element, a write appends when there is room; on an empty (full) channel the
  non-blocking read (write) reports not-ready (channel-full) and the blocking one
  suspends the caller. In the run of a single thread a suspended operation does not
  complete, and the pipe is left as it was.
\<close>
datatype 'a read_result = read_value 'a | read_not_ready | read_suspended

datatype write_result = write_done | write_full | write_suspended

definition try_read :: "'a static_pipe \<Rightarrow> 'a read_result \<times> 'a static_pipe" where
  "try_read p =
     (case content p of
        [] \<Rightarrow> (read_not_ready, p)
      | v # vs \<Rightarrow> (read_value v, p\<lparr>content := vs\<rparr>))"

definition read_blocking :: "'a static_pipe \<Rightarrow> 'a read_result \<times> 'a static_pipe" where
  "read_blocking p =
     (case content p of
        [] \<Rightarrow> (read_suspended, p)
      | v # vs \<Rightarrow> (read_value v, p\<lparr>content := vs\<rparr>))"

definition try_write :: "'a \<Rightarrow> 'a static_pipe \<Rightarrow> write_result \<times> 'a static_pipe" where
  "try_write v p =
     (if length (content p) < capacity p then (write_done, p\<lparr>content := content p @ [v]\<rparr>)
      else (write_full, p))"

definition write_blocking :: "'a \<Rightarrow> 'a static_pipe \<Rightarrow> write_result \<times> 'a static_pipe" where
  "write_blocking v p =
     (if length (content p) < capacity p then (write_done, p\<lparr>content := content p @ [v]\<rparr>)
      else (write_suspended, p))"

text \<open>One operation through a handle of the given target.\<close>
definition pipe_read :: "access_target \<Rightarrow> 'a static_pipe \<Rightarrow> 'a read_result \<times> 'a static_pipe" where
  "pipe_read t p = (case t of blocking_pipe \<Rightarrow> read_blocking p | pipe \<Rightarrow> try_read p)"

definition pipe_write ::
    "access_target \<Rightarrow> 'a \<Rightarrow> 'a static_pipe \<Rightarrow> write_result \<times> 'a static_pipe" where
  "pipe_write t v p = (case t of blocking_pipe \<Rightarrow> write_blocking v p | pipe \<Rightarrow> try_write v p)"

text \<open>A sequence of writes, each with its own target, and a sequence of reads.\<close>
fun writes ::
    "(access_target \<times> 'a) list \<Rightarrow> 'a static_pipe \<Rightarrow> write_result list \<times> 'a static_pipe" where
  "writes [] p = ([], p)"
| "writes ((t, v) # ws) p =
     (case pipe_write t v p of (r, p') \<Rightarrow>
        (case writes ws p' of (rs, p'') \<Rightarrow> (r # rs, p'')))"

fun reads :: "access_target list \<Rightarrow> 'a static_pipe \<Rightarrow> 'a read_result list \<times> 'a static_pipe" where
  "reads [] p = ([], p)"
| "reads (t # ts) p =
     (case pipe_read t p of (r, p') \<Rightarrow>
        (case reads ts p' of (rs, p'') \<Rightarrow> (r # rs, p'')))"

section \<open>The tile base\<close>

text \<open>
  Modelled from the spec: \<open>axi_stream_switch\<close>, whose header \<open>axi_stream_switch.hpp\<close> is
  not among the sources: "two ordered collections of ports, inputs and outputs", the
  members \<open>in\<close> and \<open>out\<close> that \<open>tile_base\<close> subscripts.
\<close>
record 'a axi_stream_switch =
  ss_in :: "'a static_pipe list"
  ss_out :: "'a static_pipe list"

text \<open>
  Modelled from the spec: the subscript of a port collection of the switch, part of the
  absent \<open>axi_stream_switch.hpp\<close>: the port index "must be a valid port index for the
  switch; otherwise the call fails with an out-of-range condition".
\<close>
definition port_at :: "'p list \<Rightarrow> int \<Rightarrow> fault + nat" where
  "port_at ports port =
     (if 0 \<le> port \<and> port < int (length ports) then Inr (nat port)
      else Inl (out_of_range port))"

text \<open>
  Modelled from the spec: the members \<open>in<T, Target>()\<close> and \<open>out<T, Target>()\<close> of a
  port, part of the absent \<open>axi_stream_switch.hpp\<close>: they "yield a typed, moded access
  handle bound to the underlying channel". The element type \<open>T\<close> is the type parameter
  of the switch in this model.
\<close>
definition port_in :: "nat \<Rightarrow> access_target \<Rightarrow> accessor" where
  "port_in k t = \<lparr>acc_slot = k, acc_mode = mode_read, acc_target = t\<rparr>"

definition port_out :: "nat \<Rightarrow> access_target \<Rightarrow> accessor" where
  "port_out k t = \<lparr>acc_slot = k, acc_mode = mode_write, acc_target = t\<rparr>"

text \<open>\<open>std::thread\<close>: a handle that holds a thread of execution or none.\<close>
datatype std_thread = not_a_thread | thread_id nat

text \<open>\<open>struct tile_base\<close>: the thread that runs the tile and its stream switch.\<close>
record 'a tile_base =
  thread :: std_thread
  axi_ss :: "'a axi_stream_switch"

text \<open>\<open>tile_base::in\<close>: \<open>return axi_ss.in[port].in<T, Target>();\<close>\<close>
definition tile_base_in :: "'a tile_base \<Rightarrow> access_target \<Rightarrow> int \<Rightarrow> fault + accessor" where
  "tile_base_in tb t port =
     (case port_at (ss_in (axi_ss tb)) port of
        Inl e \<Rightarrow> Inl e
      | Inr k \<Rightarrow> Inr (port_in k t))"

text \<open>\<open>tile_base::out\<close>: \<open>return axi_ss.out[port].out<T, Target>();\<close>\<close>
definition tile_base_out :: "'a tile_base \<Rightarrow> access_target \<Rightarrow> int \<Rightarrow> fault + accessor" where
  "tile_base_out tb t port =
     (case port_at (ss_out (axi_ss tb)) port of
        Inl e \<Rightarrow> Inl e
      | Inr k \<Rightarrow> Inr (port_out k t))"

text \<open>\<open>tile_base::run\<close>: \<open>void run() { }\<close>, on the state of the tile.\<close>
definition run :: "'a tile_base \<Rightarrow> unit \<times> 'a tile_base" where
  "run tb = ((), tb)"

text \<open>A switch with four input ports and two output ports, for the examples.\<close>
definition switch_4_2 :: "int axi_stream_switch" where
  "switch_4_2 = \<lparr>ss_in = replicate 4 (new_pipe 4), ss_out = replicate 2 (new_pipe 4)\<rparr>"

section \<open>Row parity\<close>

lemma and_one_odd: "((y::int) AND 1 \<noteq> 0) = odd y"
  by (simp add: and_one_eq odd_iff_mod_2_eq_one)

lemma in_index_odd:
  "odd y \<Longrightarrow> cascade_stream_in_index g x y = x_size g * y + (x_max g - x)"
  by (simp add: cascade_stream_in_index_def and_one_odd)

lemma in_index_even:
  "even y \<Longrightarrow> cascade_stream_in_index g x y = x_size g * y + x"
  by (simp add: cascade_stream_in_index_def and_one_odd)

lemma in_index_residue:
  "cascade_stream_in_index g x y = x_size g * y + (if odd y then x_max g - x else x)"
  by (simp add: cascade_stream_in_index_def and_one_odd)

lemma out_index_in_index:
  "cascade_stream_out_index g x y = cascade_stream_in_index g x y + 1"
  by (simp add: cascade_stream_out_index_def cascade_stream_in_index_def)

section \<open>The subscripts along the serpentine order\<close>

lemma map_shift_upto: "map (\<lambda>x. c + x) [0..m] = [c..c + m]"
  by (rule nth_equalityI) simp_all

lemma map_mirror_upto: "map (\<lambda>x. c + (m - x)) (rev [0..m]) = [c..c + m]"
  by (rule nth_equalityI) (simp_all add: rev_nth)

lemma row_in_indices:
  "map (in_index_of g) (row_order g y) = [x_size g * y..x_size g * y + x_max g]"
proof (cases "odd y")
  case True
  then have "map (in_index_of g) (row_order g y)
      = map (\<lambda>x. x_size g * y + (x_max g - x)) (rev [0..x_max g])"
    by (simp add: row_order_def in_index_of_def in_index_odd rev_map comp_def)
  then show ?thesis by (simp only: map_mirror_upto)
next
  case False
  then have "map (in_index_of g) (row_order g y)
      = map (\<lambda>x. x_size g * y + x) [0..x_max g]"
    by (simp add: row_order_def in_index_of_def in_index_even comp_def)
  then show ?thesis by (simp only: map_shift_upto)
qed

lemma concat_blocks:
  "0 \<le> n \<Longrightarrow>
   concat (map (\<lambda>y. [n * y..n * y + (n - 1)]) [0..int k - 1]) = [0..n * int k - 1]"
proof (induction k)
  case 0
  then show ?case by simp
next
  case (Suc k)
  have "[0..int (Suc k) - 1] = [0..int k - 1] @ [int k]"
    using upto_rec2 [of 0 "int k"] by simp
  moreover have "[0..n * int (Suc k) - 1]
      = [0..n * int k - 1] @ [n * int k..n * int k + (n - 1)]"
  proof (cases "n = 0")
    case True
    then show ?thesis by simp
  next
    case False
    with Suc.prems have "1 \<le> n" by simp
    then show ?thesis
      using upto_split1 [of 0 "n * int k" "n * int (Suc k) - 1"]
      by (simp add: algebra_simps)
  qed
  ultimately show ?case using Suc by simp
qed

lemma serpentine_in_indices:
  assumes "0 \<le> x_size g" and "0 \<le> y_size g"
  shows "map (in_index_of g) (serpentine_order g) = [0..x_size g * y_size g - 1]"
proof -
  have "map (in_index_of g) (serpentine_order g)
      = concat (map (\<lambda>y. [x_size g * y..x_size g * y + (x_size g - 1)])
          [0..int (nat (y_size g)) - 1])"
    using assms
    by (simp add: serpentine_order_def map_concat comp_def row_in_indices x_max_def y_max_def)
  also have "\<dots> = [0..x_size g * int (nat (y_size g)) - 1]"
    using assms by (simp only: concat_blocks)
  finally show ?thesis using assms by simp
qed

lemma length_serpentine:
  assumes "0 \<le> x_size g" and "0 \<le> y_size g"
  shows "length (serpentine_order g) = nat (x_size g * y_size g)"
proof -
  have "length (map (in_index_of g) (serpentine_order g))
      = length [0..x_size g * y_size g - 1]"
    using assms by (simp only: serpentine_in_indices)
  then show ?thesis by simp
qed

lemma serpentine_empty:
  "\<not> (0 < x_size g \<and> 0 < y_size g) \<Longrightarrow> serpentine_order g = []"
  by (auto simp: serpentine_order_def row_order_def x_max_def y_max_def)

lemma in_index_nth_serpentine:
  assumes "i < length (serpentine_order g)"
  shows "in_index_of g (serpentine_order g ! i) = int i"
proof -
  from assms have pos: "0 < x_size g \<and> 0 < y_size g"
    using serpentine_empty [of g] by fastforce
  then have m: "map (in_index_of g) (serpentine_order g) = [0..x_size g * y_size g - 1]"
    by (simp add: serpentine_in_indices)
  have "in_index_of g (serpentine_order g ! i)
      = map (in_index_of g) (serpentine_order g) ! i"
    using assms by simp
  also have "\<dots> = int i"
    using assms pos unfolding m by (simp add: length_serpentine)
  finally show ?thesis .
qed

lemma set_row_order: "set (row_order g y) = {(x, y) | x. 0 \<le> x \<and> x \<le> x_max g}"
  by (auto simp: row_order_def)

lemma set_serpentine: "set (serpentine_order g) = {(x, y). valid_tile g x y}"
  by (auto simp: serpentine_order_def set_row_order valid_tile_def y_max_def)

lemma distinct_serpentine: "distinct (serpentine_order g)"
proof (cases "0 < x_size g \<and> 0 < y_size g")
  case True
  then have "distinct (map (in_index_of g) (serpentine_order g))"
    by (simp add: serpentine_in_indices)
  then show ?thesis by (simp add: distinct_map)
next
  case False
  then show ?thesis by (simp add: serpentine_empty)
qed

lemma in_index_inj_on: "inj_on (in_index_of g) {(x, y). valid_tile g x y}"
proof (cases "0 < x_size g \<and> 0 < y_size g")
  case True
  then have "distinct (map (in_index_of g) (serpentine_order g))"
    by (simp add: serpentine_in_indices)
  then show ?thesis by (simp add: distinct_map set_serpentine)
next
  case False
  then have "{(x, y). valid_tile g x y} = {}"
    using set_serpentine [of g] by (simp add: serpentine_empty)
  then show ?thesis by simp
qed

lemma valid_tiles_product:
  "{0..x_max g} \<times> {0..y_size g - 1} = {(x, y). valid_tile g x y}"
  by (auto simp: valid_tile_def)

lemma card_valid_tiles:
  "0 \<le> x_size g \<Longrightarrow> 0 \<le> y_size g \<Longrightarrow>
   card {(x, y). valid_tile g x y} = nat (x_size g * y_size g)"
  using distinct_card [OF distinct_serpentine, of g]
  by (simp add: set_serpentine length_serpentine)

lemma serpentine_3_2:
  "serpentine_order size_3_2 = [(0, 0), (1, 0), (2, 0), (2, 1), (1, 1), (0, 1)]"
  by (simp add: serpentine_order_def row_order_def size_3_2_def x_max_def y_max_def upto_rec1)

lemma next_in_nth:
  "distinct xs \<Longrightarrow> Suc i < length xs \<Longrightarrow> next_in xs (xs ! i) = Some (xs ! Suc i)"
proof (induction xs "xs ! i" arbitrary: i rule: next_in.induct)
  case (1 a b xs)
  show ?case
  proof (cases i)
    case 0
    then show ?thesis by simp
  next
    case (Suc j)
    with 1 show ?thesis by (auto simp: nth_Cons')
  qed
qed simp_all

lemma chain_continuity_nth:
  assumes "Suc i < length (serpentine_order g)"
  shows "out_index_of g (serpentine_order g ! i) = in_index_of g (serpentine_order g ! Suc i)"
proof -
  from assms have "i < length (serpentine_order g)" by simp
  then have "out_index_of g (serpentine_order g ! i) = int i + 1"
    by (simp add: out_index_of_def out_index_in_index
        in_index_nth_serpentine [unfolded in_index_of_def])
  also have "\<dots> = in_index_of g (serpentine_order g ! Suc i)"
    using in_index_nth_serpentine [OF assms] by simp
  finally show ?thesis .
qed

section \<open>Bounds of the subscripts\<close>

lemma in_index_bounds:
  assumes "valid_tile g x y"
  shows "0 \<le> cascade_stream_in_index g x y"
    and "cascade_stream_in_index g x y \<le> x_size g * y_size g - 1"
proof -
  from assms have x: "0 \<le> x" "x \<le> x_size g - 1" and y: "0 \<le> y" "y \<le> y_size g - 1"
    by (simp_all add: valid_tile_def x_max_def)
  then have n: "0 < x_size g" by simp
  have lo: "0 \<le> x_size g * y" using n y by simp
  have "x_size g * y \<le> x_size g * (y_size g - 1)"
    using n y by (intro mult_left_mono) simp_all
  then have hi: "x_size g * y + (x_size g - 1) \<le> x_size g * y_size g - 1"
    by (simp add: algebra_simps)
  show "0 \<le> cascade_stream_in_index g x y"
    using lo x by (simp add: in_index_residue x_max_def)
  show "cascade_stream_in_index g x y \<le> x_size g * y_size g - 1"
    using hi x by (simp add: in_index_residue x_max_def)
qed

lemma length_new_cascade_stream:
  "length (cascade_stream_pipes (new_cascade_stream g)) = nat (x_size g * y_size g + 1)"
  by (simp add: new_cascade_stream_def)

lemma new_cascade_stream_for: "cascade_stream_for g (new_cascade_stream g)"
  by (simp add: cascade_stream_for_def length_new_cascade_stream)

lemma get_cascade_stream_in_valid:
  assumes "valid_tile g x y" and "cascade_stream_for g cs"
  shows "get_cascade_stream_in g cs t x y
    = Inr \<lparr>acc_slot = nat (cascade_stream_in_index g x y),
           acc_mode = mode_read, acc_target = t\<rparr>"
  using in_index_bounds [OF assms(1)] assms(2)
  by (simp add: get_cascade_stream_in_def get_access_def cascade_stream_for_def)

lemma get_cascade_stream_out_valid:
  assumes "valid_tile g x y" and "cascade_stream_for g cs"
  shows "get_cascade_stream_out g cs t x y
    = Inr \<lparr>acc_slot = nat (cascade_stream_out_index g x y),
           acc_mode = mode_write, acc_target = t\<rparr>"
  using in_index_bounds [OF assms(1)] assms(2)
  by (simp add: get_cascade_stream_out_def get_access_def cascade_stream_for_def
      out_index_in_index)

lemma in_index_first:
  assumes "valid_tile g x y" and "cascade_stream_in_index g x y = 0"
  shows "x = 0 \<and> y = 0"
proof -
  from assms(1) have x: "0 \<le> x" "x \<le> x_size g - 1" and y: "0 \<le> y" "y \<le> y_size g - 1"
    by (simp_all add: valid_tile_def x_max_def)
  then have n: "0 < x_size g" by simp
  define r where "r = (if odd y then x_max g - x else x)"
  have r: "0 \<le> r" using x by (simp add: r_def x_max_def)
  have e: "x_size g * y + r = 0"
    using assms(2) by (simp add: in_index_residue r_def)
  have "0 \<le> x_size g * y" using n y by simp
  with e r have z: "x_size g * y = 0" and "r = 0" by linarith+
  from z n have "y = 0" by simp
  with \<open>r = 0\<close> show ?thesis by (simp add: r_def)
qed

lemma out_index_last:
  assumes "valid_tile g x y" and "cascade_stream_out_index g x y = x_size g * y_size g"
  shows "y = y_max g" and "(if odd y then x_max g - x else x) = x_max g"
proof -
  from assms(1) have x: "0 \<le> x" "x \<le> x_size g - 1" and y: "0 \<le> y" "y \<le> y_size g - 1"
    by (simp_all add: valid_tile_def x_max_def)
  then have n: "0 < x_size g" by simp
  define r where "r = (if odd y then x_max g - x else x)"
  have r: "0 \<le> r" "r \<le> x_size g - 1" using x by (simp_all add: r_def x_max_def)
  have e: "x_size g * y + r = x_size g * y_size g - 1"
    using assms(2) by (simp add: out_index_in_index in_index_residue r_def)
  have "\<not> y < y_size g - 1"
  proof
    assume "y < y_size g - 1"
    then have "y + 1 \<le> y_size g - 1" by simp
    then have "x_size g * (y + 1) \<le> x_size g * (y_size g - 1)"
      using n by (intro mult_left_mono) simp_all
    then show False using e r by (simp add: algebra_simps)
  qed
  with y show "y = y_max g" by (simp add: y_max_def)
  with e have "x_size g * (y_size g - 1) + r = x_size g * y_size g - 1"
    by (simp add: y_max_def)
  then have "r = x_max g" by (simp add: x_max_def algebra_simps)
  then show "(if odd y then x_max g - x else x) = x_max g" by (simp add: r_def)
qed

section \<open>The links of the chain\<close>

lemma is_cascade_end_iff:
  "is_cascade_end g x y \<longleftrightarrow> x = (if even (y_max g) then x_max g else 0) \<and> y = y_max g"
  by (auto simp: is_cascade_end_def x_min_def and_one_odd)

lemma last_serpentine:
  assumes "wf_geography g"
  shows "last (serpentine_order g) = (if even (y_max g) then x_max g else 0, y_max g)"
proof -
  from assms have pos: "0 \<le> x_size g" "0 \<le> y_size g" and n: "0 < x_size g * y_size g"
    by (simp_all add: wf_geography_def)
  let ?e = "(if even (y_max g) then x_max g else 0, y_max g)"
  let ?l = "last (serpentine_order g)"
  have ne: "serpentine_order g \<noteq> []"
    using length_serpentine [OF pos] n by auto
  then have "?l \<in> set (serpentine_order g)" by simp
  then have vl: "valid_tile g (fst ?l) (snd ?l)"
    by (simp add: set_serpentine split_beta)
  have "in_index_of g ?l = int (length (serpentine_order g) - 1)"
    using ne in_index_nth_serpentine [of "length (serpentine_order g) - 1" g]
    by (simp add: last_conv_nth)
  also have "\<dots> = x_size g * y_size g - 1"
    using n by (simp add: length_serpentine [OF pos])
  finally have "cascade_stream_out_index g (fst ?l) (snd ?l) = x_size g * y_size g"
    by (simp add: in_index_of_def out_index_in_index)
  from out_index_last [OF vl this] have "?l = ?e"
    by (auto simp: prod_eq_iff split: if_splits)
  then show ?thesis .
qed

lemma successor_step:
  assumes "valid_tile g x y" and "\<not> is_cascade_end g x y"
  shows "successor g (x, y) = Some (step g (x, y))"
proof -
  from assms(1) have wf: "wf_geography g"
    by (auto simp: valid_tile_def wf_geography_def x_max_def)
  from assms(1) have x: "0 \<le> x" "x \<le> x_max g" and y: "0 \<le> y" "y \<le> y_max g"
    by (simp_all add: valid_tile_def y_max_def)
  have "(x, y) \<noteq> last (serpentine_order g)"
    using assms(2) by (simp add: last_serpentine [OF wf] is_cascade_end_iff)
  with assms(1) have "(x, y) \<in> set (serpentine_order g)" by (simp add: set_serpentine)
  then obtain i where i: "i < length (serpentine_order g)" "serpentine_order g ! i = (x, y)"
    by (auto simp: in_set_conv_nth)
  then have "serpentine_order g \<noteq> []" by auto
  with \<open>(x, y) \<noteq> last (serpentine_order g)\<close> i have "i \<noteq> length (serpentine_order g) - 1"
    by (auto simp: last_conv_nth)
  with i have s: "Suc i < length (serpentine_order g)" by simp
  let ?s = "serpentine_order g ! Suc i"
  have succ: "successor g (x, y) = Some ?s"
    using next_in_nth [OF distinct_serpentine s] i by (simp add: successor_def)
  have vs: "?s \<in> {(x, y). valid_tile g x y}"
    using s set_serpentine [of g] nth_mem [OF s] by simp
  have i1: "in_index_of g ?s = cascade_stream_in_index g x y + 1"
    using chain_continuity_nth [OF s] i by (simp add: out_index_of_def out_index_in_index)
  have "y \<noteq> y_max g" if "x = (if even y then x_max g else 0)"
    using that assms(2) by (auto simp: is_cascade_end_iff)
  with y have ny: "even y \<Longrightarrow> x = x_max g \<Longrightarrow> y + 1 < y_size g"
      "odd y \<Longrightarrow> x = 0 \<Longrightarrow> y + 1 < y_size g"
    by (simp_all add: y_max_def)
  from assms(1) have y': "y < y_size g" by (simp add: valid_tile_def)
  have vc: "step g (x, y) \<in> {(x, y). valid_tile g x y}"
    using x y(1) y' ny by (auto simp: step_def valid_tile_def)
  have i2: "in_index_of g (step g (x, y)) = cascade_stream_in_index g x y + 1"
    using x by (auto simp: step_def in_index_of_def in_index_residue x_max_def algebra_simps)
  from inj_onD [OF in_index_inj_on _ vs vc] i1 i2 have "?s = step g (x, y)" by simp
  with succ show ?thesis by simp
qed

section \<open>The subscripts on machine integers\<close>

lemma sint_of_int32: "int32 v \<Longrightarrow> sint (word_of_int v :: 32 word) = v"
  by (simp add: int32_def sint_sbintrunc' signed_take_bit_int_eq_self)

lemma odd_word_of_int: "odd (word_of_int y :: 32 word) = odd y"
proof -
  have "odd (word_of_int y :: 32 word) = bit (word_of_int y :: 32 word) 0"
    by (simp only: bit_0)
  also have "\<dots> = bit y 0"
    by (simp add: bit_word_of_int_iff)
  also have "\<dots> = odd y"
    by (simp only: bit_0)
  finally show ?thesis .
qed

lemma word_parity: "((word_of_int y :: 32 word) AND 1 \<noteq> 0) = odd y"
proof -
  have "(w AND 1 \<noteq> 0) = odd w" for w :: "32 word"
    by (simp add: and_one_eq mod_2_eq_odd)
  then show ?thesis by (simp only: odd_word_of_int)
qed

lemma in_index32_word_of_int:
  "cascade_stream_in_index32 (word_of_int (x_size g)) (word_of_int (x_max g))
     (word_of_int x) (word_of_int y) = word_of_int (cascade_stream_in_index g x y)"
  by (simp add: cascade_stream_in_index32_def cascade_stream_in_index_def word_parity
      and_one_odd)

lemma out_index32_word_of_int:
  "cascade_stream_out_index32 (word_of_int (x_size g)) (word_of_int (x_max g))
     (word_of_int x) (word_of_int y) = word_of_int (cascade_stream_out_index g x y)"
  by (simp add: cascade_stream_out_index32_def cascade_stream_out_index_def word_parity
      and_one_odd)

text \<open>No intermediate value of either subscript overflows.\<close>
lemma subscripts_fit_int32:
  assumes "valid_tile g x y" and "int32 (x_size g * y_size g + 1)"
  shows "int32 (x_size g * y)" and "int32 (x_max g - x)"
    and "int32 (cascade_stream_in_index g x y)"
    and "int32 (x_size g * y + 1)"
    and "int32 (cascade_stream_out_index g x y)"
proof -
  from assms(1) have x: "0 \<le> x" "x \<le> x_size g - 1" and y: "0 \<le> y" "y \<le> y_size g - 1"
    by (simp_all add: valid_tile_def x_max_def)
  then have n: "0 < x_size g" by simp
  have lo: "0 \<le> x_size g * y" using n y by simp
  have "x_size g * y \<le> x_size g * (y_size g - 1)"
    using n y by (intro mult_left_mono) simp_all
  then have hi: "x_size g * y + x_size g \<le> x_size g * y_size g"
    by (simp add: algebra_simps)
  from assms(2) have m: "x_size g * y_size g + 1 < 2 ^ 31" by (simp add: int32_def)
  show "int32 (x_size g * y)" using lo hi n m by (simp add: int32_def)
  show "int32 (x_size g * y + 1)" using lo hi n m by (simp add: int32_def)
  show "int32 (x_max g - x)" using x hi lo m by (simp add: int32_def x_max_def)
  show "int32 (cascade_stream_in_index g x y)"
    using in_index_bounds [OF assms(1)] m by (simp add: int32_def)
  show "int32 (cascade_stream_out_index g x y)"
    using in_index_bounds [OF assms(1)] m by (simp add: int32_def out_index_in_index)
qed

text \<open>The 32-bit computation returns the subscripts of the model.\<close>
lemma subscripts_on_int32:
  assumes "valid_tile g x y" and "int32 (x_size g * y_size g + 1)"
  shows "sint (cascade_stream_in_index32 (word_of_int (x_size g)) (word_of_int (x_max g))
           (word_of_int x) (word_of_int y)) = cascade_stream_in_index g x y"
    and "sint (cascade_stream_out_index32 (word_of_int (x_size g)) (word_of_int (x_max g))
           (word_of_int x) (word_of_int y)) = cascade_stream_out_index g x y"
  using subscripts_fit_int32(3,5) [OF assms]
  by (simp_all add: in_index32_word_of_int out_index32_word_of_int sint_of_int32)

section \<open>Pipes deliver in write order\<close>

lemma pipe_write_done:
  "pipe_write t v p = (write_done, p') \<Longrightarrow> content p' = content p @ [v] \<and> capacity p' = capacity p"
  by (cases t) (auto simp: pipe_write_def write_blocking_def try_write_def split: if_splits)

lemma writes_content:
  "writes ws p = (rs, p') \<Longrightarrow> \<forall>r \<in> set rs. r = write_done \<Longrightarrow>
   content p' = content p @ map snd ws"
proof (induction ws arbitrary: p rs p')
  case Nil
  then show ?case by simp
next
  case (Cons w ws)
  obtain t v where w: "w = (t, v)" by (cases w)
  obtain r q where q: "pipe_write t v p = (r, q)" by (cases "pipe_write t v p")
  obtain rs' q' where q': "writes ws q = (rs', q')" by (cases "writes ws q")
  from Cons.prems w q q' have e: "rs = r # rs'" "p' = q'" by simp_all
  with Cons.prems(2) have "r = write_done" "\<forall>r \<in> set rs'. r = write_done" by simp_all
  with q have "content q = content p @ [v]" by (simp add: pipe_write_done)
  moreover have "content q' = content q @ map snd ws"
    using Cons.IH [OF q'] \<open>\<forall>r \<in> set rs'. r = write_done\<close> by simp
  ultimately show ?case using e w by simp
qed

lemma pipe_read_Cons:
  "content p = v # vs \<Longrightarrow> pipe_read t p = (read_value v, p\<lparr>content := vs\<rparr>)"
  by (cases t) (simp_all add: pipe_read_def read_blocking_def try_read_def)

lemma reads_content:
  "content p = vs @ rest \<Longrightarrow> length ts = length vs \<Longrightarrow>
   reads ts p = (map read_value vs, p\<lparr>content := rest\<rparr>)"
proof (induction ts arbitrary: p vs)
  case Nil
  then show ?case by simp
next
  case (Cons t ts)
  then obtain v vs' where vs: "vs = v # vs'" by (cases vs) simp_all
  with Cons.prems have "pipe_read t p = (read_value v, p\<lparr>content := vs' @ rest\<rparr>)"
    by (simp add: pipe_read_Cons)
  moreover have "reads ts (p\<lparr>content := vs' @ rest\<rparr>)
      = (map read_value vs', p\<lparr>content := vs' @ rest, content := rest\<rparr>)"
    using Cons.prems vs by (intro Cons.IH) simp_all
  ultimately show ?case using vs by simp
qed

section \<open>Serpentine addressing\<close>

text \<open>
  Claim C1. For every tile \<open>(x, y)\<close> of the grid, the subscript computed by
  \<open>get_cascade_stream_in\<close> is \<open>x_size * y + (x_max - x)\<close> on an odd row and
  \<open>x_size * y + x\<close> on an even row, and the accessor returned reads the pipe in that
  slot. In the 3 by 2 array (\<open>x_max = 2\<close>) the tiles
  \<open>(0,0), (1,0), (2,0), (2,1), (1,1), (0,1)\<close> get the subscripts \<open>0, 1, 2, 3, 4, 5\<close>.
\<close>
theorem cascade_in_index_serpentine:
  "(valid_tile g x y \<longrightarrow>
      cascade_stream_in_index g x y
        = (if odd y then x_size g * y + (x_max g - x) else x_size g * y + x)
      \<and> (cascade_stream_for g cs \<longrightarrow>
          get_cascade_stream_in g cs t x y
          = Inr \<lparr>acc_slot =
                   nat (if odd y then x_size g * y + (x_max g - x) else x_size g * y + x),
                 acc_mode = mode_read, acc_target = t\<rparr>))
   \<and> x_max size_3_2 = 2
   \<and> map (in_index_of size_3_2) [(0, 0), (1, 0), (2, 0), (2, 1), (1, 1), (0, 1)]
       = [0, 1, 2, 3, 4, 5]"
proof -
  have "cascade_stream_in_index g x y
        = (if odd y then x_size g * y + (x_max g - x) else x_size g * y + x)"
    by (simp add: in_index_odd in_index_even)
  moreover have "x_max size_3_2 = 2"
    by (simp add: x_max_def size_3_2_def)
  moreover have "map (in_index_of size_3_2) [(0, 0), (1, 0), (2, 0), (2, 1), (1, 1), (0, 1)]
       = [0, 1, 2, 3, 4, 5]"
    by (simp add: in_index_of_def cascade_stream_in_index_def x_max_def size_3_2_def)
  ultimately show ?thesis
    using get_cascade_stream_in_valid [of g x y cs t] by simp
qed

theorem cascade_in_index_serpentine_witness:
  "valid_tile \<lparr>x_size = 4, y_size = 3\<rparr> 1 1
   \<and> cascade_stream_for \<lparr>x_size = 4, y_size = 3\<rparr>
        (new_cascade_stream \<lparr>x_size = 4, y_size = 3\<rparr>)
   \<and> cascade_stream_in_index \<lparr>x_size = 4, y_size = 3\<rparr> 1 1 = 6
   \<and> get_cascade_stream_in \<lparr>x_size = 4, y_size = 3\<rparr>
        (new_cascade_stream \<lparr>x_size = 4, y_size = 3\<rparr>) blocking_pipe 1 1
      = Inr \<lparr>acc_slot = 6, acc_mode = mode_read, acc_target = blocking_pipe\<rparr>"
  using cascade_in_index_serpentine [of "\<lparr>x_size = 4, y_size = 3\<rparr>" 1 1
      "new_cascade_stream \<lparr>x_size = 4, y_size = 3\<rparr>" blocking_pipe]
    new_cascade_stream_for [of "\<lparr>x_size = 4, y_size = 3\<rparr>"]
  by (simp add: valid_tile_def x_max_def)

text \<open>
  Claim C2. For every tile \<open>(x, y)\<close> of the grid, the subscript computed by
  \<open>get_cascade_stream_out\<close> is the subscript computed by \<open>get_cascade_stream_in\<close>
  for the same tile plus 1, whatever the parity of the row: the write accessor of a tile
  is on the slot that follows the slot of its read accessor.
\<close>
theorem cascade_out_index_is_in_plus_one:
  "valid_tile g x y \<Longrightarrow>
     cascade_stream_out_index g x y = cascade_stream_in_index g x y + 1
     \<and> (cascade_stream_for g cs \<longrightarrow>
          get_cascade_stream_in g cs t x y
          = Inr \<lparr>acc_slot = nat (cascade_stream_in_index g x y),
                 acc_mode = mode_read, acc_target = t\<rparr>
        \<and> get_cascade_stream_out g cs t' x y
          = Inr \<lparr>acc_slot = nat (cascade_stream_in_index g x y) + 1,
                 acc_mode = mode_write, acc_target = t'\<rparr>)"
proof -
  assume v: "valid_tile g x y"
  have "nat (cascade_stream_out_index g x y) = nat (cascade_stream_in_index g x y) + 1"
    using in_index_bounds(1) [OF v] by (simp add: out_index_in_index nat_add_distrib)
  then show ?thesis
    using get_cascade_stream_in_valid [OF v, of cs t]
      get_cascade_stream_out_valid [OF v, of cs t']
    by (simp add: out_index_in_index)
qed

theorem cascade_out_index_is_in_plus_one_witness:
  "valid_tile size_3_2 1 0 \<and> valid_tile size_3_2 1 1
   \<and> cascade_stream_for size_3_2 (new_cascade_stream size_3_2)
   \<and> cascade_stream_in_index size_3_2 1 0 = 1 \<and> cascade_stream_out_index size_3_2 1 0 = 2
   \<and> cascade_stream_in_index size_3_2 1 1 = 4 \<and> cascade_stream_out_index size_3_2 1 1 = 5
   \<and> get_cascade_stream_out size_3_2 (new_cascade_stream size_3_2) pipe 1 1
      = Inr \<lparr>acc_slot = 5, acc_mode = mode_write, acc_target = pipe\<rparr>"
proof -
  have v: "valid_tile size_3_2 1 0" "valid_tile size_3_2 1 1"
    by (simp_all add: valid_tile_def x_max_def size_3_2_def)
  have i: "cascade_stream_in_index size_3_2 1 0 = 1" "cascade_stream_in_index size_3_2 1 1 = 4"
    by (simp_all add: cascade_stream_in_index_def x_max_def size_3_2_def)
  show ?thesis
    using cascade_out_index_is_in_plus_one [OF v(1), of "new_cascade_stream size_3_2"
        blocking_pipe pipe]
      cascade_out_index_is_in_plus_one [OF v(2), of "new_cascade_stream size_3_2"
        blocking_pipe pipe]
      new_cascade_stream_for [of size_3_2] v
    by (simp add: i)
qed

section \<open>Chain continuity\<close>

text \<open>
  Claim C3. For every tile \<open>T\<close> of the grid that is not the last tile of the serpentine
  order, \<open>T\<close> has a successor in that order, and the subscript \<open>get_cascade_stream_out\<close>
  computes for \<open>T\<close> is the subscript \<open>get_cascade_stream_in\<close> computes for that
  successor.
\<close>
theorem cascade_chain_continuity:
  assumes "valid_tile g x y" and "(x, y) \<noteq> last (serpentine_order g)"
  shows "\<exists>s. successor g (x, y) = Some s
           \<and> cascade_stream_out_index g x y = in_index_of g s"
proof -
  from assms(1) have "(x, y) \<in> set (serpentine_order g)"
    by (simp add: set_serpentine)
  then obtain i where i: "i < length (serpentine_order g)" "serpentine_order g ! i = (x, y)"
    by (auto simp: in_set_conv_nth)
  then have "serpentine_order g \<noteq> []" by auto
  with assms(2) i have "i \<noteq> length (serpentine_order g) - 1"
    by (auto simp: last_conv_nth)
  with i have s: "Suc i < length (serpentine_order g)" by simp
  have "successor g (x, y) = Some (serpentine_order g ! Suc i)"
    using next_in_nth [OF distinct_serpentine s] i by (simp add: successor_def)
  moreover have "cascade_stream_out_index g x y = in_index_of g (serpentine_order g ! Suc i)"
    using chain_continuity_nth [OF s] i by (simp add: out_index_of_def)
  ultimately show ?thesis by simp
qed

theorem cascade_chain_continuity_witness:
  "valid_tile size_3_2 2 0 \<and> (2, 0) \<noteq> last (serpentine_order size_3_2)
   \<and> successor size_3_2 (2, 0) = Some (2, 1)
   \<and> cascade_stream_out_index size_3_2 2 0 = 3 \<and> in_index_of size_3_2 (2, 1) = 3"
proof -
  have v: "valid_tile size_3_2 2 0"
    by (simp add: valid_tile_def x_max_def size_3_2_def)
  have l: "(2, 0) \<noteq> last (serpentine_order size_3_2)"
    by (simp add: serpentine_3_2)
  have s: "successor size_3_2 (2, 0) = Some (2, 1)"
    by (simp add: successor_def serpentine_3_2)
  have o: "cascade_stream_out_index size_3_2 2 0 = 3"
    by (simp add: cascade_stream_out_index_def size_3_2_def)
  show ?thesis
    using cascade_chain_continuity [OF v l] v l s o by simp
qed

section \<open>Every tile exactly once\<close>

text \<open>
  Claim C4. On a grid with at least one tile, the map from a tile \<open>(x, y)\<close> to the
  subscript of \<open>get_cascade_stream_in\<close> is a bijection from the coordinates
  \<open>{0..x_max} \<times> {0..y_size - 1}\<close> onto \<open>{0..x_size * y_size - 1}\<close>: distinct tiles get
  distinct subscripts and every subscript of that range is the subscript of a tile.
\<close>
theorem cascade_in_index_bijection:
  "wf_geography g \<Longrightarrow>
     bij_betw (in_index_of g) ({0..x_max g} \<times> {0..y_size g - 1})
       {0..x_size g * y_size g - 1}"
proof -
  assume "wf_geography g"
  then have pos: "0 \<le> x_size g" "0 \<le> y_size g" by (simp_all add: wf_geography_def)
  have "in_index_of g ` set (serpentine_order g)
      = set (map (in_index_of g) (serpentine_order g))"
    by simp
  also have "\<dots> = {0..x_size g * y_size g - 1}"
    using pos by (simp only: serpentine_in_indices set_upto)
  finally have "in_index_of g ` {(x, y). valid_tile g x y} = {0..x_size g * y_size g - 1}"
    by (simp only: set_serpentine)
  then show ?thesis
    unfolding bij_betw_def valid_tiles_product using in_index_inj_on by blast
qed

theorem cascade_in_index_bijection_witness:
  "wf_geography size_3_2
   \<and> bij_betw (in_index_of size_3_2) ({0..2} \<times> {0..1}) {0..5}"
  using cascade_in_index_bijection [of size_3_2]
  by (simp add: wf_geography_def x_max_def size_3_2_def)

section \<open>The number of pipes\<close>

text \<open>
  Claim C5. The array \<open>cascade_stream_pipes\<close> has \<open>x_size * y_size + 1\<close> pipes, one
  more than the grid has tiles; for the 3 by 2 array that is 7 pipes.
\<close>
theorem cascade_pipes_count:
  "length (cascade_stream_pipes (new_cascade_stream g)) = nat (x_size g * y_size g + 1)
   \<and> (wf_geography g \<longrightarrow>
        int (length (cascade_stream_pipes (new_cascade_stream g))) = x_size g * y_size g + 1
      \<and> length (cascade_stream_pipes (new_cascade_stream g))
          = card {(x, y). valid_tile g x y} + 1)
   \<and> length (cascade_stream_pipes (new_cascade_stream size_3_2)) = 7"
proof -
  have "length (cascade_stream_pipes (new_cascade_stream size_3_2)) = 7"
    by (simp add: length_new_cascade_stream size_3_2_def)
  moreover have "wf_geography g \<Longrightarrow> nat (x_size g * y_size g + 1) = nat (x_size g * y_size g) + 1"
    by (simp add: wf_geography_def nat_add_distrib)
  ultimately show ?thesis
    by (simp add: length_new_cascade_stream card_valid_tiles wf_geography_def)
qed

theorem cascade_pipes_count_witness:
  "wf_geography \<lparr>x_size = 4, y_size = 3\<rparr>
   \<and> length (cascade_stream_pipes (new_cascade_stream \<lparr>x_size = 4, y_size = 3\<rparr>)) = 13
   \<and> card {(x, y). valid_tile \<lparr>x_size = 4, y_size = 3\<rparr> x y} = 12"
  using cascade_pipes_count [of "\<lparr>x_size = 4, y_size = 3\<rparr>"]
  by (simp add: wf_geography_def)

section \<open>The two spare slots\<close>

text \<open>
  Claim C6. Tile \<open>(0, 0)\<close> reads slot 0, and the tile of row \<open>y_max\<close> in column
  \<open>x_max\<close> (when \<open>y_max\<close> is even) or column 0 (when \<open>y_max\<close> is odd) writes slot
  \<open>x_size * y_size\<close>. Among the tiles of the grid only the first reads slot 0 and only
  the second writes slot \<open>x_size * y_size\<close>; they are the tiles the guards of the test
  program take for the start and the end of the chain. No tile writes slot 0 and no
  tile reads slot \<open>x_size * y_size\<close>.
\<close>
theorem chain_extremal_slots:
  "cascade_stream_in_index g 0 0 = 0
   \<and> cascade_stream_out_index g (if even (y_max g) then x_max g else 0) (y_max g)
       = x_size g * y_size g
   \<and> (valid_tile g x y \<longrightarrow>
        (cascade_stream_in_index g x y = 0 \<longleftrightarrow> x = 0 \<and> y = 0)
      \<and> (cascade_stream_in_index g x y = 0 \<longleftrightarrow> is_cascade_start g x y)
      \<and> (cascade_stream_out_index g x y = x_size g * y_size g
           \<longleftrightarrow> x = (if even (y_max g) then x_max g else 0) \<and> y = y_max g)
      \<and> (cascade_stream_out_index g x y = x_size g * y_size g \<longleftrightarrow> is_cascade_end g x y)
      \<and> cascade_stream_out_index g x y \<noteq> 0
      \<and> cascade_stream_in_index g x y \<noteq> x_size g * y_size g)"
proof -
  have a: "cascade_stream_in_index g 0 0 = 0"
    by (simp add: cascade_stream_in_index_def)
  have b: "cascade_stream_out_index g (if even (y_max g) then x_max g else 0) (y_max g)
       = x_size g * y_size g"
    by (simp add: out_index_in_index in_index_residue x_max_def y_max_def algebra_simps)
  have c: "(cascade_stream_in_index g x y = 0 \<longleftrightarrow> x = 0 \<and> y = 0)" if "valid_tile g x y"
    using in_index_first [OF that] a by auto
  have d: "(cascade_stream_out_index g x y = x_size g * y_size g
           \<longleftrightarrow> x = (if even (y_max g) then x_max g else 0) \<and> y = y_max g)"
    if "valid_tile g x y"
  proof
    assume "cascade_stream_out_index g x y = x_size g * y_size g"
    from out_index_last [OF that this]
    show "x = (if even (y_max g) then x_max g else 0) \<and> y = y_max g"
      by (auto split: if_splits)
  next
    assume "x = (if even (y_max g) then x_max g else 0) \<and> y = y_max g"
    then show "cascade_stream_out_index g x y = x_size g * y_size g"
      using b by simp
  qed
  have e: "is_cascade_start g x y \<longleftrightarrow> x = 0 \<and> y = 0"
    by (simp add: is_cascade_start_def x_min_def y_min_def)
  have f: "is_cascade_end g x y
      \<longleftrightarrow> x = (if even (y_max g) then x_max g else 0) \<and> y = y_max g"
    by (auto simp: is_cascade_end_def x_min_def and_one_odd)
  have h: "cascade_stream_out_index g x y \<noteq> 0
      \<and> cascade_stream_in_index g x y \<noteq> x_size g * y_size g" if "valid_tile g x y"
    using in_index_bounds [OF that] by (simp add: out_index_in_index)
  show ?thesis using a b c d e f h by simp
qed

theorem chain_extremal_slots_witness:
  "valid_tile size_3_2 0 1 \<and> is_cascade_end size_3_2 0 1 \<and> \<not> is_cascade_start size_3_2 0 1
   \<and> cascade_stream_out_index size_3_2 0 1 = 6
   \<and> cascade_stream_in_index size_3_2 0 1 \<noteq> 0"
proof -
  have v: "valid_tile size_3_2 0 1"
    by (simp add: valid_tile_def x_max_def size_3_2_def)
  have e: "is_cascade_end size_3_2 0 1" "\<not> is_cascade_start size_3_2 0 1"
    by (simp_all add: is_cascade_end_def is_cascade_start_def x_min_def y_min_def y_max_def
        size_3_2_def)
  have s: "x_size size_3_2 * y_size size_3_2 = 6"
    by (simp add: size_3_2_def)
  show ?thesis
    using chain_extremal_slots [of size_3_2 0 1] v e by (simp add: s)
qed

section \<open>The accessors of the tile base\<close>

text \<open>
  Claim C7. \<open>tile_base::in\<close> called with a port index that is not an index of an input
  port of the switch fails with the out-of-range condition and returns no access handle,
  and so does \<open>tile_base::out\<close> with a port index that is not an index of an output port;
  with the index of a port each returns the handle on that port.
\<close>
theorem tile_port_out_of_range:
  "(\<not> (0 \<le> port \<and> port < int (length (ss_in (axi_ss tb))))
      \<longrightarrow> tile_base_in tb t port = Inl (out_of_range port))
   \<and> (\<not> (0 \<le> port \<and> port < int (length (ss_out (axi_ss tb))))
      \<longrightarrow> tile_base_out tb t port = Inl (out_of_range port))
   \<and> (0 \<le> port \<and> port < int (length (ss_in (axi_ss tb)))
      \<longrightarrow> tile_base_in tb t port
          = Inr \<lparr>acc_slot = nat port, acc_mode = mode_read, acc_target = t\<rparr>)
   \<and> (0 \<le> port \<and> port < int (length (ss_out (axi_ss tb)))
      \<longrightarrow> tile_base_out tb t port
          = Inr \<lparr>acc_slot = nat port, acc_mode = mode_write, acc_target = t\<rparr>)"
  by (simp add: tile_base_in_def tile_base_out_def port_at_def port_in_def port_out_def)

theorem tile_port_out_of_range_witness:
  "tile_base_in \<lparr>thread = not_a_thread, axi_ss = switch_4_2\<rparr> blocking_pipe 4
     = Inl (out_of_range 4)
   \<and> tile_base_in \<lparr>thread = not_a_thread, axi_ss = switch_4_2\<rparr> blocking_pipe (- 1)
     = Inl (out_of_range (- 1))
   \<and> tile_base_out \<lparr>thread = not_a_thread, axi_ss = switch_4_2\<rparr> pipe 2
     = Inl (out_of_range 2)
   \<and> tile_base_in \<lparr>thread = not_a_thread, axi_ss = switch_4_2\<rparr> pipe 2
     = Inr \<lparr>acc_slot = 2, acc_mode = mode_read, acc_target = pipe\<rparr>"
  using tile_port_out_of_range [of 4 "\<lparr>thread = not_a_thread, axi_ss = switch_4_2\<rparr>" blocking_pipe]
    tile_port_out_of_range [of "- 1" "\<lparr>thread = not_a_thread, axi_ss = switch_4_2\<rparr>" blocking_pipe]
    tile_port_out_of_range [of 2 "\<lparr>thread = not_a_thread, axi_ss = switch_4_2\<rparr>" pipe]
  by (simp add: switch_4_2_def)

section \<open>First in, first out\<close>

text \<open>
  Claim C8. On one channel, empty before the first write as a cascade channel is when
  constructed: when \<open>n\<close> writes of \<open>w1, ..., wn\<close> all succeed, each through a blocking or
  a non-blocking handle, the \<open>n\<close> reads that follow all succeed, each through a blocking
  or a non-blocking handle, and return \<open>w1, ..., wn\<close> in that order; the channel is
  empty again afterwards, so nothing was duplicated or dropped.
\<close>
theorem pipe_fifo_delivery:
  assumes "content p = []"
    and "writes ws p = (rs, p')"
    and "\<forall>r \<in> set rs. r = write_done"
    and "length ts = length ws"
  shows "fst (reads ts p') = map (read_value \<circ> snd) ws
       \<and> content (snd (reads ts p')) = []"
proof -
  have "content p' = map snd ws @ []"
    using writes_content [OF assms(2,3)] assms(1) by simp
  then have "reads ts p' = (map read_value (map snd ws), p'\<lparr>content := []\<rparr>)"
    using assms(4) by (intro reads_content) simp_all
  then show ?thesis by simp
qed

theorem pipe_fifo_delivery_witness:
  "content (cascade_stream_pipes (new_cascade_stream size_3_2) ! 3) = []
   \<and> writes [(blocking_pipe, 10), (pipe, 20), (pipe, 30)]
        (cascade_stream_pipes (new_cascade_stream size_3_2) ! 3)
      = ([write_done, write_done, write_done], \<lparr>capacity = 4, content = [10, 20, 30]\<rparr>)
   \<and> reads [pipe, blocking_pipe, pipe] \<lparr>capacity = 4, content = [10, 20, 30 :: int]\<rparr>
      = ([read_value 10, read_value 20, read_value 30], \<lparr>capacity = 4, content = []\<rparr>)"
proof -
  have p: "cascade_stream_pipes (new_cascade_stream size_3_2) ! 3 = new_pipe 4"
    by (simp add: new_cascade_stream_def size_3_2_def)
  have w: "writes [(blocking_pipe, 10), (pipe, 20), (pipe, 30 :: int)] (new_pipe 4)
      = ([write_done, write_done, write_done], \<lparr>capacity = 4, content = [10, 20, 30]\<rparr>)"
    by (simp add: new_pipe_def pipe_write_def write_blocking_def try_write_def)
  have e: "content (new_pipe 4 :: int static_pipe) = []"
    by (simp add: new_pipe_def)
  have "fst (reads [pipe, blocking_pipe, pipe] \<lparr>capacity = 4, content = [10, 20, 30 :: int]\<rparr>)
        = map (read_value \<circ> snd) [(blocking_pipe, 10), (pipe, 20), (pipe, 30)]
      \<and> content (snd (reads [pipe, blocking_pipe, pipe]
          \<lparr>capacity = 4, content = [10, 20, 30 :: int]\<rparr>)) = []"
    by (rule pipe_fifo_delivery [OF e w]) simp_all
  moreover have "capacity (snd (reads [pipe, blocking_pipe, pipe]
          \<lparr>capacity = 4, content = [10, 20, 30 :: int]\<rparr>)) = 4"
    by (simp add: pipe_read_def read_blocking_def try_read_def)
  ultimately have r: "reads [pipe, blocking_pipe, pipe]
        \<lparr>capacity = 4, content = [10, 20, 30 :: int]\<rparr>
      = ([read_value 10, read_value 20, read_value 30], \<lparr>capacity = 4, content = []\<rparr>)"
    by (simp add: prod_eq_iff)
  show ?thesis unfolding p by (intro conjI e w r)
qed

section \<open>The default run\<close>

text \<open>
  Claim C9. The default \<open>tile_base::run\<close> returns, with no value, and leaves the tile as
  it was: the thread handle and the stream switch, with every port queue, are unchanged.
\<close>
theorem run_is_no_op:
  "run tb = ((), tb)
   \<and> thread (snd (run tb)) = thread tb
   \<and> axi_ss (snd (run tb)) = axi_ss tb
   \<and> ss_in (axi_ss (snd (run tb))) = ss_in (axi_ss tb)
   \<and> ss_out (axi_ss (snd (run tb))) = ss_out (axi_ss tb)"
  by (simp add: run_def)

section \<open>Bounds safety of the accessors\<close>

text \<open>
  Claim C10. For every tile \<open>(x, y)\<close> of the grid the subscript of
  \<open>get_cascade_stream_in\<close> lies in \<open>[0, x_size * y_size - 1]\<close> and the subscript of
  \<open>get_cascade_stream_out\<close> in \<open>[1, x_size * y_size]\<close>; on an array of
  \<open>x_size * y_size + 1\<close> pipes both accessors are obtained without leaving the array.
\<close>
theorem cascade_access_in_bounds:
  "valid_tile g x y \<Longrightarrow>
     0 \<le> cascade_stream_in_index g x y
   \<and> cascade_stream_in_index g x y \<le> x_size g * y_size g - 1
   \<and> 1 \<le> cascade_stream_out_index g x y
   \<and> cascade_stream_out_index g x y \<le> x_size g * y_size g
   \<and> (cascade_stream_for g cs \<longrightarrow>
        int (length (cascade_stream_pipes cs)) = x_size g * y_size g + 1
      \<and> (\<exists>a. get_cascade_stream_in g cs t x y = Inr a
             \<and> acc_slot a < length (cascade_stream_pipes cs))
      \<and> (\<exists>b. get_cascade_stream_out g cs t' x y = Inr b
             \<and> acc_slot b < length (cascade_stream_pipes cs)))"
proof -
  assume v: "valid_tile g x y"
  note b = in_index_bounds [OF v]
  have "int (length (cascade_stream_pipes cs)) = x_size g * y_size g + 1"
    and "nat (cascade_stream_in_index g x y) < length (cascade_stream_pipes cs)"
    and "nat (cascade_stream_out_index g x y) < length (cascade_stream_pipes cs)"
    if "cascade_stream_for g cs"
    using that b by (simp_all add: cascade_stream_for_def out_index_in_index)
  then show ?thesis
    using b get_cascade_stream_in_valid [OF v, of cs t]
      get_cascade_stream_out_valid [OF v, of cs t']
    by (simp add: out_index_in_index)
qed

theorem cascade_access_in_bounds_witness:
  "valid_tile size_3_2 0 1 \<and> cascade_stream_for size_3_2 (new_cascade_stream size_3_2)
   \<and> length (cascade_stream_pipes (new_cascade_stream size_3_2)) = 7
   \<and> get_cascade_stream_in size_3_2 (new_cascade_stream size_3_2) pipe 0 1
       = Inr \<lparr>acc_slot = 5, acc_mode = mode_read, acc_target = pipe\<rparr>
   \<and> get_cascade_stream_out size_3_2 (new_cascade_stream size_3_2) pipe 0 1
       = Inr \<lparr>acc_slot = 6, acc_mode = mode_write, acc_target = pipe\<rparr>"
proof -
  have v: "valid_tile size_3_2 0 1"
    by (simp add: valid_tile_def x_max_def size_3_2_def)
  have l: "length (cascade_stream_pipes (new_cascade_stream size_3_2)) = 7"
    by (simp add: length_new_cascade_stream size_3_2_def)
  have i: "get_cascade_stream_in size_3_2 (new_cascade_stream size_3_2) pipe 0 1
       = Inr \<lparr>acc_slot = 5, acc_mode = mode_read, acc_target = pipe\<rparr>"
    by (simp add: get_cascade_stream_in_def get_access_def length_new_cascade_stream
        cascade_stream_in_index_def x_max_def size_3_2_def)
  have o: "get_cascade_stream_out size_3_2 (new_cascade_stream size_3_2) pipe 0 1
       = Inr \<lparr>acc_slot = 6, acc_mode = mode_write, acc_target = pipe\<rparr>"
    by (simp add: get_cascade_stream_out_def get_access_def length_new_cascade_stream
        cascade_stream_out_index_def x_max_def size_3_2_def)
  show ?thesis
    using cascade_access_in_bounds [OF v, of "new_cascade_stream size_3_2" pipe pipe]
      v new_cascade_stream_for [of size_3_2] l i o
    by simp
qed

end
